theory Spec2Isabelle
  imports Complex_Main
begin

section \<open>The secureChat canister: data model\<close>

text \<open>
  The canister of \<^verbatim>\<open>src/index.ts\<close> keeps three stable maps and exposes update
  and query methods over them. A \<^verbatim>\<open>Principal\<close> is only ever compared through its
  text form (\<^verbatim>\<open>a.toString() === b.toString()\<close>), so a principal is its text.
  The ids are JavaScript \<^verbatim>\<open>BigInt\<close>s, which are unbounded; \<^verbatim>\<open>nat64\<close> is only
  their wire type, and every id the canister makes is below \<open>2 ^ 53\<close>.
\<close>

type_synonym principal = string

record Message =
  sender :: principal
  receiver :: principal
  messageText :: string
  messageTime :: nat

record Session =
  id_s :: nat
  user :: principal

record MessageNotification =
  sender_n :: principal
  id_n :: nat
  messageTime_n :: nat

text \<open>
  The variant \<^verbatim>\<open>Error\<close>. Each case carries a text for the reader of the reply;
  no method looks at it, and it is left out here.
\<close>

datatype Error =
  NoManager
  | NoSession
  | NotFound
  | DuplicateAttempt
  | MaxSessionsReached
  | MaxMessageReached

text \<open>The three \<^verbatim>\<open>StableBTreeMap\<close>s.\<close>

record Store =
  userChatIDs :: "principal \<rightharpoonup> Session list"
  chatData :: "nat \<rightharpoonup> Message list"
  unreadMessages :: "principal \<rightharpoonup> MessageNotification list"

definition emptyStore :: Store where
  "emptyStore = \<lparr>userChatIDs = Map.empty, chatData = Map.empty, unreadMessages = Map.empty\<rparr>"

definition INTEGER_LIMIT :: int where
  "INTEGER_LIMIT = 2 ^ 53 - 1"

definition MAXIMUM_SESSIONS :: nat where
  "MAXIMUM_SESSIONS = 20"

definition MAX_MSG_PER_SESSION :: nat where
  "MAX_MSG_PER_SESSION = 200"

section \<open>Session ids\<close>

text \<open>
  \<^verbatim>\<open>generateRandomID\<close> is \<^verbatim>\<open>Math.floor(Math.random() * INTEGER_LIMIT)\<close>. The value
  \<open>r\<close> that \<^verbatim>\<open>Math.random()\<close> returned is the argument. The product is taken
  exactly, as the double product is for the draws that the statements below evaluate
  (0, 1/2, 1/4 and 1/8).
\<close>

definition generateRandomID :: "real \<Rightarrow> nat" where
  "generateRandomID r = nat \<lfloor>r * of_int INTEGER_LIMIT\<rfloor>"

text \<open>
  The loop at the head of \<^verbatim>\<open>createSession\<close>: draw an id, and draw again while
  the Message Log has that key. The draws are the successive values of
  \<^verbatim>\<open>Math.random()\<close>; a loop that is still running when they are used up has
  returned nothing.
\<close>

fun newID_loop :: "real list \<Rightarrow> (nat \<rightharpoonup> Message list) \<Rightarrow> nat option" where
  "newID_loop [] cd = None"
| "newID_loop (r # rs) cd =
     (if cd (generateRandomID r) \<noteq> None then newID_loop rs cd
      else Some (generateRandomID r))"

text \<open>
  \<^verbatim>\<open>sendMessage\<close>, \<^verbatim>\<open>viewMessages\<close> and \<^verbatim>\<open>getTotalSessionMessages\<close> find the
  session of a counterparty with a \<^verbatim>\<open>forEach\<close> that overwrites a variable set to
  \<^verbatim>\<open>BigInt(0)\<close> at every match, and the \<^verbatim>\<open>filter\<close> callback of \<^verbatim>\<open>removeSession\<close>
  does the same to \<^verbatim>\<open>removedID\<close>: the last match wins, and \<open>0\<close> stays when
  there is none.
\<close>

fun scanID :: "nat \<Rightarrow> Session list \<Rightarrow> principal \<Rightarrow> nat" where
  "scanID ID [] p = ID"
| "scanID ID (session # rest) p =
     scanID (if user session = p then id_s session else ID) rest p"

section \<open>Object identity\<close>

text \<open>
  \<^verbatim>\<open>Array.prototype.includes\<close> compares with SameValueZero: two objects are the
  same only when they are one allocation. \<^verbatim>\<open>StableBTreeMap.get\<close> decodes the stored
  bytes into objects allocated by the call, and an object literal is one more
  allocation. An object is therefore a pair of its address and its fields; the list
  that \<^verbatim>\<open>get\<close> returns takes the addresses from \<open>n\<close> on.
\<close>

type_synonym 'a obj = "nat \<times> 'a"

fun decode :: "nat \<Rightarrow> 'a list \<Rightarrow> 'a obj list" where
  "decode n [] = []"
| "decode n (x # xs) = (n, x) # decode (Suc n) xs"

definition includes_js :: "'a obj list \<Rightarrow> 'a obj \<Rightarrow> bool" where
  "includes_js xs x = (fst x \<in> set (map fst xs))"

section \<open>Session manager\<close>

text \<open>
  \<^verbatim>\<open>createSession\<close>. The id loop runs first, whatever the outcome of the checks
  after it. There is no cap check and no duplicate check when the caller has no
  directory entry yet.
\<close>

definition createSession ::
  "real list \<Rightarrow> principal \<Rightarrow> principal \<Rightarrow> Store \<Rightarrow> ((Error + bool) \<times> Store) option" where
  "createSession draws caller friendPrincipal s =
     (case newID_loop draws (chatData s) of
        None \<Rightarrow> None
      | Some newID \<Rightarrow>
          Some
            (let newSession = \<lparr>id_s = newID, user = friendPrincipal\<rparr> in
             case userChatIDs s caller of
               None \<Rightarrow>
                 (Inr True,
                  s\<lparr>userChatIDs := (userChatIDs s)(caller \<mapsto> [newSession]),
                    chatData := (chatData s)(newID \<mapsto> [])\<rparr>)
             | Some userSessions \<Rightarrow>
                 if length userSessions > MAXIMUM_SESSIONS then (Inl MaxSessionsReached, s)
                 else if friendPrincipal \<in> set (map user userSessions)
                   then (Inl DuplicateAttempt, s)
                 else
                   (Inr True,
                    s\<lparr>userChatIDs := (userChatIDs s)(caller \<mapsto> userSessions @ [newSession]),
                      chatData := (chatData s)(newID \<mapsto> [])\<rparr>)))"

text \<open>
  Dropping the notifications of one session id from one queue, when the queue
  exists (\<^verbatim>\<open>get\<close>, \<^verbatim>\<open>filter\<close>, \<^verbatim>\<open>insert\<close>).
\<close>

definition purge :: "principal \<Rightarrow> nat \<Rightarrow> Store \<Rightarrow> Store" where
  "purge p removedID s =
     (case unreadMessages s p of
        None \<Rightarrow> s
      | Some notifications \<Rightarrow>
          s\<lparr>unreadMessages :=
              (unreadMessages s)(p \<mapsto> filter (\<lambda>notification. id_n notification \<noteq> removedID)
                notifications)\<rparr>)"

text \<open>
  The block under the comment \<^verbatim>\<open>Remove Session Data if Session Has Been Deleted By
  Both Users\<close>, which \<^verbatim>\<open>removeSession\<close> and the loop of \<^verbatim>\<open>removeAllSessions\<close>
  both contain. The counterparty's list is decoded at the addresses from \<open>0\<close>, and
  the literal \<^verbatim>\<open>removedSession\<close> is the next allocation.
\<close>

definition cascade :: "principal \<Rightarrow> principal \<Rightarrow> nat \<Rightarrow> Store \<Rightarrow> Store" where
  "cascade caller friendPrincipal removedID s =
     (case userChatIDs s friendPrincipal of
        None \<Rightarrow> s\<lparr>chatData := (chatData s)(removedID := None)\<rparr>
      | Some stored \<Rightarrow>
          (let friendSession = decode 0 stored;
               removedSession = (length stored, \<lparr>id_s = removedID, user = caller\<rparr>)
           in if \<not> includes_js friendSession removedSession
              then purge caller removedID
                     (purge friendPrincipal removedID
                        (s\<lparr>chatData := (chatData s)(removedID := None)\<rparr>))
              else s))"

definition removeSession :: "principal \<Rightarrow> principal \<Rightarrow> Store \<Rightarrow> (Error + bool) \<times> Store" where
  "removeSession caller friendPrincipal s =
     (case userChatIDs s caller of
        None \<Rightarrow> (Inl NoSession, s)
      | Some userSessions \<Rightarrow>
          (let removedID = scanID 0 userSessions friendPrincipal;
               newSession = filter (\<lambda>session. user session \<noteq> friendPrincipal) userSessions
           in if length newSession = length userSessions then (Inl NotFound, s)
              else
                (Inr True,
                 cascade caller friendPrincipal removedID
                   (s\<lparr>userChatIDs := (userChatIDs s)(caller \<mapsto> newSession)\<rparr>))))"

text \<open>
  \<^verbatim>\<open>removeAllSessions\<close> runs the same block for every session of the caller's list
  as it was read at the start, and only then stores the empty list.
\<close>

definition removeAllSessions :: "principal \<Rightarrow> Store \<Rightarrow> (Error + bool) \<times> Store" where
  "removeAllSessions caller s =
     (case userChatIDs s caller of
        None \<Rightarrow> (Inl NoSession, s)
      | Some userSessions \<Rightarrow>
          (let s1 = foldl (\<lambda>st session. cascade caller (user session) (id_s session) st)
                      s userSessions
           in (Inr True, s1\<lparr>userChatIDs := (userChatIDs s1)(caller \<mapsto> [])\<rparr>)))"

section \<open>Messaging engine\<close>

text \<open>
  \<^verbatim>\<open>sendMessage\<close>. \<open>now\<close> is \<^verbatim>\<open>ic.time()\<close>, which is one value throughout
  the execution of a call.
\<close>

definition notify :: "nat \<Rightarrow> principal \<Rightarrow> principal \<Rightarrow> nat \<Rightarrow> Store \<Rightarrow> Store" where
  "notify now caller receiver' ID s =
     (let newNotification = \<lparr>sender_n = caller, id_n = ID, messageTime_n = now\<rparr> in
      case unreadMessages s receiver' of
        None \<Rightarrow> s\<lparr>unreadMessages := (unreadMessages s)(receiver' \<mapsto> [newNotification])\<rparr>
      | Some currentNotification \<Rightarrow>
          s\<lparr>unreadMessages :=
              (unreadMessages s)(receiver' \<mapsto> currentNotification @ [newNotification])\<rparr>)"

definition sendMessage ::
  "nat \<Rightarrow> principal \<Rightarrow> principal \<Rightarrow> string \<Rightarrow> Store \<Rightarrow> (Error + bool) \<times> Store" where
  "sendMessage now caller receiver' message s =
     (case userChatIDs s caller of
        None \<Rightarrow> (Inl NoSession, s)
      | Some userSessions \<Rightarrow>
          (let ID = scanID 0 userSessions receiver' in
           if ID = 0 then (Inl NotFound, s)
           else
             (let newMessage =
                    \<lparr>sender = caller, receiver = receiver', messageText = message,
                     messageTime = now\<rparr>
              in case chatData s ID of
                   None \<Rightarrow>
                     (Inr True,
                      notify now caller receiver' ID
                        (s\<lparr>chatData := (chatData s)(ID \<mapsto> [newMessage])\<rparr>))
                 | Some currentMessages \<Rightarrow>
                     if length currentMessages > MAX_MSG_PER_SESSION
                     then (Inl MaxMessageReached, s)
                     else
                       (Inr True,
                        notify now caller receiver' ID
                          (s\<lparr>chatData :=
                               (chatData s)(ID \<mapsto> currentMessages @ [newMessage])\<rparr>)))))"

section \<open>Query layer\<close>

definition viewNotifications :: "principal \<Rightarrow> Store \<Rightarrow> MessageNotification list" where
  "viewNotifications caller s =
     (case unreadMessages s caller of None \<Rightarrow> [] | Some currentNotifications \<Rightarrow> currentNotifications)"

definition viewMessages ::
  "principal \<Rightarrow> principal \<Rightarrow> Store \<Rightarrow> (Error + Message list) \<times> Store" where
  "viewMessages caller friendPrincipal s =
     (case userChatIDs s caller of
        None \<Rightarrow> (Inl NoSession, s)
      | Some userSessions \<Rightarrow>
          (let ID = scanID 0 userSessions friendPrincipal in
           if ID = 0 then (Inl NotFound, s)
           else
             (case chatData s ID of
                None \<Rightarrow> (Inl NotFound, s)
              | Some currentMessages \<Rightarrow> (Inr currentMessages, purge caller ID s))))"

text \<open>\<^verbatim>\<open>getSessionID\<close> returns from inside its loop: the first match wins.\<close>

definition getSessionID :: "principal \<Rightarrow> principal \<Rightarrow> Store \<Rightarrow> Error + nat" where
  "getSessionID caller friendPrincipal s =
     (case userChatIDs s caller of
        None \<Rightarrow> Inl NoSession
      | Some userSessions \<Rightarrow>
          (case find (\<lambda>session. user session = friendPrincipal) userSessions of
             None \<Rightarrow> Inl NotFound
           | Some session \<Rightarrow> Inr (id_s session)))"

definition getAllSessions :: "principal \<Rightarrow> Store \<Rightarrow> Error + Session list" where
  "getAllSessions caller s =
     (case userChatIDs s caller of
        None \<Rightarrow> Inl NoSession
      | Some userSessions \<Rightarrow> Inr userSessions)"

definition getTotalSessions :: "principal \<Rightarrow> Store \<Rightarrow> nat" where
  "getTotalSessions caller s =
     (case userChatIDs s caller of None \<Rightarrow> 0 | Some userSessions \<Rightarrow> length userSessions)"

definition getTotalSessionMessages :: "principal \<Rightarrow> principal \<Rightarrow> Store \<Rightarrow> Error + nat" where
  "getTotalSessionMessages caller friendPrincipal s =
     (case userChatIDs s caller of
        None \<Rightarrow> Inl NoSession
      | Some userSessions \<Rightarrow>
          (let ID = scanID 0 userSessions friendPrincipal in
           if ID = 0 then Inl NotFound
           else
             (case chatData s ID of
                None \<Rightarrow> Inl NotFound
              | Some currentMessages \<Rightarrow> Inr (length currentMessages))))"

definition getMaximumSessions :: nat where
  "getMaximumSessions = MAXIMUM_SESSIONS"

definition getMaximumMessages :: nat where
  "getMaximumMessages = MAX_MSG_PER_SESSION"

section \<open>Sequences of calls\<close>

text \<open>
  The update methods as calls, each with its caller, and a run of calls from a
  store. The canister runs one call to its end before the next. A run has no result
  when an id loop has none.
\<close>

datatype call =
  CreateSession "real list" principal principal
  | RemoveSession principal principal
  | RemoveAllSessions principal
  | SendMessage nat principal principal string
  | ViewMessages principal principal

fun exec :: "call \<Rightarrow> Store \<Rightarrow> Store option" where
  "exec (CreateSession draws caller friendPrincipal) s =
     map_option snd (createSession draws caller friendPrincipal s)"
| "exec (RemoveSession caller friendPrincipal) s = Some (snd (removeSession caller friendPrincipal s))"
| "exec (RemoveAllSessions caller) s = Some (snd (removeAllSessions caller s))"
| "exec (SendMessage now caller receiver' message) s =
     Some (snd (sendMessage now caller receiver' message s))"
| "exec (ViewMessages caller friendPrincipal) s = Some (snd (viewMessages caller friendPrincipal s))"

fun run :: "call list \<Rightarrow> Store \<Rightarrow> Store option" where
  "run [] s = Some s"
| "run (c # cs) s = (case exec c s of None \<Rightarrow> None | Some s' \<Rightarrow> run cs s')"

text \<open>
  A caller sending one message after another to the same receiver, each with its
  time and text, and the replies in order.
\<close>

fun sendAll ::
  "(nat \<times> string) list \<Rightarrow> principal \<Rightarrow> principal \<Rightarrow> Store \<Rightarrow> (Error + bool) list \<times> Store" where
  "sendAll [] caller receiver' s = ([], s)"
| "sendAll ((now, message) # rest) caller receiver' s =
     (let reply = sendMessage now caller receiver' message s;
          replies = sendAll rest caller receiver' (snd reply)
      in (fst reply # fst replies, snd replies))"

text \<open>The invariant of the data model: one session per counterparty in every list.\<close>

definition uniq :: "Store \<Rightarrow> bool" where
  "uniq s = (\<forall>c ss. userChatIDs s c = Some ss \<longrightarrow> distinct (map user ss))"

text \<open>The bound on the logs: no entry of the Message Log is longer than the cap plus one.\<close>

definition bounded :: "Store \<Rightarrow> bool" where
  "bounded s = (\<forall>i msgs. chatData s i = Some msgs \<longrightarrow> length msgs \<le> MAX_MSG_PER_SESSION + 1)"

text \<open>
  Two more invariants of the stores that the calls reach: every listed session has its
  entry in the Message Log, and no session id is listed twice, neither in one list nor
  in the lists of two principals.
\<close>

definition logged :: "Store \<Rightarrow> bool" where
  "logged s = (\<forall>c ss x. userChatIDs s c = Some ss \<longrightarrow> x \<in> set ss \<longrightarrow> chatData s (id_s x) \<noteq> None)"

definition unshared :: "Store \<Rightarrow> bool" where
  "unshared s =
     ((\<forall>c ss. userChatIDs s c = Some ss \<longrightarrow> distinct (map id_s ss)) \<and>
      (\<forall>c c' ss ss' x y. userChatIDs s c = Some ss \<longrightarrow> userChatIDs s c' = Some ss' \<longrightarrow> c \<noteq> c' \<longrightarrow>
         x \<in> set ss \<longrightarrow> y \<in> set ss' \<longrightarrow> id_s x \<noteq> id_s y))"

definition sound :: "Store \<Rightarrow> bool" where
  "sound s = (uniq s \<and> logged s \<and> unshared s)"

section \<open>Example stores\<close>

text \<open>
  \<open>aliceStore\<close>: alice lists bob under id 7 and carol under id 9; the log of 7
  holds one message, the log of 9 is gone; alice has one unread notification for
  each of the two ids. It is a store of the three maps that no run from the empty
  store ends in (a listed session there always has its log).
\<close>

definition aliceStore :: Store where
  "aliceStore =
     \<lparr>userChatIDs = [''alice'' \<mapsto> [\<lparr>id_s = 7, user = ''bob''\<rparr>, \<lparr>id_s = 9, user = ''carol''\<rparr>]],
      chatData =
        [7 \<mapsto> [\<lparr>sender = ''bob'', receiver = ''alice'', messageText = ''hi'', messageTime = 1\<rparr>]],
      unreadMessages =
        [''alice'' \<mapsto> [\<lparr>sender_n = ''bob'', id_n = 7, messageTime_n = 1\<rparr>,
                       \<lparr>sender_n = ''carol'', id_n = 9, messageTime_n = 2\<rparr>]]\<rparr>"

text \<open>
  \<open>fullStore\<close>: alice lists twenty sessions, with the counterparties \<open>p01\<close> to
  \<open>p20\<close> under the ids 1 to 20, each with an empty log.
\<close>

definition twentySessions :: "Session list" where
  "twentySessions =
     [\<lparr>id_s = 1, user = ''p01''\<rparr>, \<lparr>id_s = 2, user = ''p02''\<rparr>, \<lparr>id_s = 3, user = ''p03''\<rparr>,
      \<lparr>id_s = 4, user = ''p04''\<rparr>, \<lparr>id_s = 5, user = ''p05''\<rparr>, \<lparr>id_s = 6, user = ''p06''\<rparr>,
      \<lparr>id_s = 7, user = ''p07''\<rparr>, \<lparr>id_s = 8, user = ''p08''\<rparr>, \<lparr>id_s = 9, user = ''p09''\<rparr>,
      \<lparr>id_s = 10, user = ''p10''\<rparr>, \<lparr>id_s = 11, user = ''p11''\<rparr>, \<lparr>id_s = 12, user = ''p12''\<rparr>,
      \<lparr>id_s = 13, user = ''p13''\<rparr>, \<lparr>id_s = 14, user = ''p14''\<rparr>, \<lparr>id_s = 15, user = ''p15''\<rparr>,
      \<lparr>id_s = 16, user = ''p16''\<rparr>, \<lparr>id_s = 17, user = ''p17''\<rparr>, \<lparr>id_s = 18, user = ''p18''\<rparr>,
      \<lparr>id_s = 19, user = ''p19''\<rparr>, \<lparr>id_s = 20, user = ''p20''\<rparr>]"

definition fullStore :: Store where
  "fullStore =
     \<lparr>userChatIDs = [''alice'' \<mapsto> twentySessions],
      chatData = (\<lambda>k. if 1 \<le> k \<and> k \<le> 20 then Some [] else None),
      unreadMessages = Map.empty\<rparr>"

text \<open>
  \<open>zeroStore\<close>: alice lists bob under the id 0, with an empty log.
\<close>

definition zeroStore :: Store where
  "zeroStore =
     \<lparr>userChatIDs = [''alice'' \<mapsto> [\<lparr>id_s = 0, user = ''bob''\<rparr>]],
      chatData = [0 \<mapsto> []],
      unreadMessages = Map.empty\<rparr>"

text \<open>
  \<open>freshStore\<close>: the store after alice has opened a session with bob from the
  empty store, with \<^verbatim>\<open>Math.random()\<close> returning 1/2.
\<close>

definition freshStore :: Store where
  "freshStore =
     \<lparr>userChatIDs = [''alice'' \<mapsto> [\<lparr>id_s = 4503599627370495, user = ''bob''\<rparr>]],
      chatData = [4503599627370495 \<mapsto> []],
      unreadMessages = Map.empty\<rparr>"

text \<open>
  A run of calls: alice opens a session with bob, bob opens one with alice, and alice
  writes to bob. Each of the two then lists the other, under an id of its own.
\<close>

definition mutualCalls :: "call list" where
  "mutualCalls =
     [CreateSession [1 / 2] ''alice'' ''bob'',
      CreateSession [1 / 4] ''bob'' ''alice'',
      SendMessage 1 ''alice'' ''bob'' ''hi'']"

text \<open>\<open>mutualStore\<close>: the store that the run \<open>mutualCalls\<close> ends in.\<close>

definition mutualStore :: Store where
  "mutualStore =
     \<lparr>userChatIDs = [''alice'' \<mapsto> [\<lparr>id_s = 4503599627370495, user = ''bob''\<rparr>],
                     ''bob'' \<mapsto> [\<lparr>id_s = 2251799813685247, user = ''alice''\<rparr>]],
      chatData =
        [2251799813685247 \<mapsto> [],
         4503599627370495 \<mapsto>
           [\<lparr>sender = ''alice'', receiver = ''bob'', messageText = ''hi'', messageTime = 1\<rparr>]],
      unreadMessages =
        [''bob'' \<mapsto> [\<lparr>sender_n = ''alice'', id_n = 4503599627370495, messageTime_n = 1\<rparr>]]\<rparr>"

text \<open>
  A run of calls: alice opens a session with herself and writes to herself; bob opens
  a session with alice and writes to her. \<open>selfStore\<close> is the store it ends in:
  alice has a notification under her own session id and one under bob's.
\<close>

definition selfCalls :: "call list" where
  "selfCalls =
     [CreateSession [1 / 2] ''alice'' ''alice'',
      SendMessage 1 ''alice'' ''alice'' ''hi'',
      CreateSession [1 / 4] ''bob'' ''alice'',
      SendMessage 2 ''bob'' ''alice'' ''yo'']"

definition selfStore :: Store where
  "selfStore =
     \<lparr>userChatIDs = [''alice'' \<mapsto> [\<lparr>id_s = 4503599627370495, user = ''alice''\<rparr>],
                     ''bob'' \<mapsto> [\<lparr>id_s = 2251799813685247, user = ''alice''\<rparr>]],
      chatData =
        [4503599627370495 \<mapsto>
           [\<lparr>sender = ''alice'', receiver = ''alice'', messageText = ''hi'', messageTime = 1\<rparr>],
         2251799813685247 \<mapsto>
           [\<lparr>sender = ''bob'', receiver = ''alice'', messageText = ''yo'', messageTime = 2\<rparr>]],
      unreadMessages =
        [''alice'' \<mapsto> [\<lparr>sender_n = ''alice'', id_n = 4503599627370495, messageTime_n = 1\<rparr>,
                       \<lparr>sender_n = ''bob'', id_n = 2251799813685247, messageTime_n = 2\<rparr>]]\<rparr>"

text \<open>
  A run of calls: alice opens a session with bob, bob opens one with alice and removes
  it again, which deletes the log of his own session id. \<open>cascadeStore\<close> is the
  store it ends in: the log of alice's session is still there.
\<close>

definition cascadeCalls :: "call list" where
  "cascadeCalls =
     [CreateSession [1 / 2] ''alice'' ''bob'',
      CreateSession [1 / 4] ''bob'' ''alice'',
      RemoveSession ''bob'' ''alice'']"

definition cascadeStore :: Store where
  "cascadeStore =
     \<lparr>userChatIDs = [''alice'' \<mapsto> [\<lparr>id_s = 4503599627370495, user = ''bob''\<rparr>], ''bob'' \<mapsto> []],
      chatData = [4503599627370495 \<mapsto> []],
      unreadMessages = Map.empty\<rparr>"

text \<open>
  \<open>orphanStore\<close>: alice lists bob under the id 0 and the Message Log is empty. No
  run from the empty store ends in it.
\<close>

definition orphanStore :: Store where
  "orphanStore =
     \<lparr>userChatIDs = [''alice'' \<mapsto> [\<lparr>id_s = 0, user = ''bob''\<rparr>]],
      chatData = Map.empty,
      unreadMessages = Map.empty\<rparr>"

text \<open>
  A run of calls: alice opens sessions with bob and carol (the second id loop
  draws bob's id first), is refused a second session with bob, writes to bob,
  leaves the session with bob, and bob opens one with alice.
\<close>

definition demoCalls :: "call list" where
  "demoCalls =
     [CreateSession [1 / 2] ''alice'' ''bob'',
      CreateSession [1 / 2, 1 / 4] ''alice'' ''carol'',
      CreateSession [1 / 8] ''alice'' ''bob'',
      SendMessage 1 ''alice'' ''bob'' ''hi'',
      RemoveSession ''alice'' ''bob'',
      CreateSession [1 / 2] ''bob'' ''alice'']"

section \<open>Helper lemmas\<close>

text \<open>
  The literal that \<^verbatim>\<open>includes\<close> is asked about is never one of the decoded
  objects: the test in the cascade block is always negative.
\<close>

lemma includes_js_fresh: "\<not> includes_js (decode 0 xs) (length xs, v)"
proof -
  have "set (map fst (decode n xs)) = {n ..< n + length xs}" for n
    by (induction xs arbitrary: n) auto
  then show ?thesis by (simp add: includes_js_def)
qed

lemma scanID_no_match: "p \<notin> set (map user ss) \<Longrightarrow> scanID ID ss p = ID"
  by (induction ss arbitrary: ID) auto

lemma scanID_distinct:
  "distinct (map user ss) \<Longrightarrow> x \<in> set ss \<Longrightarrow> scanID ID ss (user x) = id_s x"
proof (induction ss arbitrary: ID)
  case Nil
  then show ?case by simp
next
  case (Cons y ys)
  show ?case
  proof (cases "x = y")
    case True
    with Cons.prems have "user x \<notin> set (map user ys)" by simp
    then show ?thesis using True by (simp add: scanID_no_match)
  next
    case False
    with Cons.prems have "x \<in> set ys" "distinct (map user ys)" by auto
    then show ?thesis using Cons.IH by simp
  qed
qed

lemma length_filter_same: "(length (filter P xs) = length xs) = (filter P xs = xs)"
  by (metis filter_id_conv filter_True length_filter_less less_irrefl)

lemma purge_userChatIDs [simp]: "userChatIDs (purge p i s) = userChatIDs s"
  by (simp add: purge_def split: option.splits)

lemma purge_chatData [simp]: "chatData (purge p i s) = chatData s"
  by (simp add: purge_def split: option.splits)

lemma notify_userChatIDs [simp]: "userChatIDs (notify now c r i s) = userChatIDs s"
  by (simp add: notify_def Let_def split: option.splits)

lemma notify_chatData [simp]: "chatData (notify now c r i s) = chatData s"
  by (simp add: notify_def Let_def split: option.splits)

lemma cascade_eq:
  "cascade caller friendPrincipal removedID s =
     (case userChatIDs s friendPrincipal of
        None \<Rightarrow> s\<lparr>chatData := (chatData s)(removedID := None)\<rparr>
      | Some stored \<Rightarrow>
          purge caller removedID
            (purge friendPrincipal removedID (s\<lparr>chatData := (chatData s)(removedID := None)\<rparr>)))"
  by (simp add: cascade_def Let_def includes_js_fresh split: option.splits)

lemma cascade_userChatIDs [simp]: "userChatIDs (cascade c f i s) = userChatIDs s"
  by (simp add: cascade_eq split: option.splits)

lemma cascade_chatData [simp]: "chatData (cascade c f i s) = (chatData s)(i := None)"
  by (simp add: cascade_eq split: option.splits)

lemma foldl_cascade_userChatIDs [simp]:
  "userChatIDs (foldl (\<lambda>st session. cascade c (user session) (id_s session) st) s ss) = userChatIDs s"
  by (induction ss arbitrary: s) auto

lemma removeSession_userChatIDs:
  "userChatIDs (snd (removeSession c f s)) =
     (case userChatIDs s c of None \<Rightarrow> userChatIDs s
      | Some ss \<Rightarrow> if f \<in> set (map user ss) then (userChatIDs s)(c \<mapsto> filter (\<lambda>x. user x \<noteq> f) ss) else userChatIDs s)"
  apply (simp add: removeSession_def Let_def length_filter_same filter_id_conv split: option.splits)
  by auto

lemma sendMessage_userChatIDs [simp]: "userChatIDs (snd (sendMessage now c r m s)) = userChatIDs s"
  by (simp add: sendMessage_def Let_def split: option.splits)

lemma viewMessages_userChatIDs [simp]: "userChatIDs (snd (viewMessages c f s)) = userChatIDs s"
  by (simp add: viewMessages_def Let_def split: option.splits)

lemma removeAllSessions_userChatIDs:
  "userChatIDs (snd (removeAllSessions c s)) =
     (case userChatIDs s c of None \<Rightarrow> userChatIDs s | Some ss \<Rightarrow> (userChatIDs s)(c \<mapsto> []))"
  by (simp add: removeAllSessions_def Let_def split: option.splits)

lemma find_snoc_fresh:
  "p \<notin> set (map user ss) \<Longrightarrow> user x = p \<Longrightarrow> find (\<lambda>session. user session = p) (ss @ [x]) = Some x"
  by (induction ss) auto

lemma cascade_unreadMessages:
  "userChatIDs s f = Some fs \<Longrightarrow>
   unreadMessages (cascade c f i s) p =
     (if p = c \<or> p = f
      then map_option (filter (\<lambda>notification. id_n notification \<noteq> i)) (unreadMessages s p)
      else unreadMessages s p)"
  by (auto simp: cascade_eq purge_def split: option.splits)

lemma sendMessage_full:
  "userChatIDs s caller = Some userSessions \<Longrightarrow> scanID 0 userSessions receiver' = ID \<Longrightarrow> ID \<noteq> 0 \<Longrightarrow>
   chatData s ID = Some msgs \<Longrightarrow> length msgs > MAX_MSG_PER_SESSION \<Longrightarrow>
   sendMessage now caller receiver' message s = (Inl MaxMessageReached, s)"
  by (simp add: sendMessage_def Let_def)

lemma sendMessage_room:
  "userChatIDs s caller = Some userSessions \<Longrightarrow> scanID 0 userSessions receiver' = ID \<Longrightarrow> ID \<noteq> 0 \<Longrightarrow>
   chatData s ID = Some msgs \<Longrightarrow> length msgs \<le> MAX_MSG_PER_SESSION \<Longrightarrow>
   fst (sendMessage now caller receiver' message s) = Inr True \<and>
   chatData (snd (sendMessage now caller receiver' message s)) ID =
     Some (msgs @ [\<lparr>sender = caller, receiver = receiver', messageText = message, messageTime = now\<rparr>])"
  by (simp add: sendMessage_def Let_def)

lemma sendAll_replies:
  "userChatIDs s caller = Some userSessions \<Longrightarrow> scanID 0 userSessions receiver' = ID \<Longrightarrow> ID \<noteq> 0 \<Longrightarrow>
   chatData s ID = Some msgs \<Longrightarrow>
   fst (sendAll ms caller receiver' s) =
     replicate (min (length ms) (Suc MAX_MSG_PER_SESSION - length msgs)) (Inr True) @
     replicate (length ms - (Suc MAX_MSG_PER_SESSION - length msgs)) (Inl MaxMessageReached) \<and>
   (\<exists>msgs'. chatData (snd (sendAll ms caller receiver' s)) ID = Some msgs' \<and>
      length msgs' = length msgs + min (length ms) (Suc MAX_MSG_PER_SESSION - length msgs))"
proof (induction ms arbitrary: s msgs)
  case Nil
  then show ?case by simp
next
  case (Cons m ms)
  obtain now message where m: "m = (now, message)" by (cases m)
  let ?s1 = "snd (sendMessage now caller receiver' message s)"
  show ?case
  proof (cases "length msgs > MAX_MSG_PER_SESSION")
    case True
    have full: "sendMessage now caller receiver' message s = (Inl MaxMessageReached, s)"
      using sendMessage_full [OF Cons.prems True] .
    have z: "Suc MAX_MSG_PER_SESSION - length msgs = 0" using True by simp
    show ?thesis
      using Cons.IH [OF Cons.prems] full z m by (simp add: Let_def)
  next
    case False
    then have le: "length msgs \<le> MAX_MSG_PER_SESSION" by simp
    note room = sendMessage_room [OF Cons.prems le, of now message]
    have u: "userChatIDs ?s1 caller = Some userSessions" using Cons.prems(1) by simp
    have k: "Suc MAX_MSG_PER_SESSION - length msgs = Suc (MAX_MSG_PER_SESSION - length msgs)"
            "Suc MAX_MSG_PER_SESSION - length (msgs @ [x]) = MAX_MSG_PER_SESSION - length msgs" for x :: Message
      using le by simp_all
    show ?thesis
      using Cons.IH [OF u Cons.prems(2) Cons.prems(3) conjunct2 [OF room]] room m k
      by (simp add: Let_def)
  qed
qed

text \<open>Every update call keeps the counterparties of every list distinct.\<close>

lemma uniq_createSession:
  "uniq s \<Longrightarrow> createSession draws c f s = Some (r, s') \<Longrightarrow> uniq s'"
  by (auto simp: uniq_def createSession_def Let_def split: option.splits if_splits)

lemma uniq_removeSession: "uniq s \<Longrightarrow> uniq (snd (removeSession c f s))"
  by (auto simp: uniq_def removeSession_userChatIDs distinct_map_filter split: option.splits if_splits)

lemma uniq_removeAllSessions: "uniq s \<Longrightarrow> uniq (snd (removeAllSessions c s))"
  by (auto simp: uniq_def removeAllSessions_userChatIDs split: option.splits if_splits)

lemma uniq_exec: "uniq s \<Longrightarrow> exec c s = Some s' \<Longrightarrow> uniq s'"
proof (cases c)
  case (CreateSession draws caller f)
  assume "uniq s" "exec c s = Some s'"
  with CreateSession show ?thesis by (auto dest: uniq_createSession)
next
  case (RemoveSession caller f)
  assume "uniq s" "exec c s = Some s'"
  with RemoveSession show ?thesis using uniq_removeSession by auto
next
  case (RemoveAllSessions caller)
  assume "uniq s" "exec c s = Some s'"
  with RemoveAllSessions show ?thesis using uniq_removeAllSessions by auto
next
  case (SendMessage now caller r m)
  assume "uniq s" "exec c s = Some s'"
  with SendMessage show ?thesis by (auto simp: uniq_def)
next
  case (ViewMessages caller f)
  assume "uniq s" "exec c s = Some s'"
  with ViewMessages show ?thesis by (auto simp: uniq_def)
qed

lemma uniq_run: "uniq s \<Longrightarrow> run cs s = Some s' \<Longrightarrow> uniq s'"
proof (induction cs arbitrary: s)
  case Nil
  then show ?case by simp
next
  case (Cons c cs)
  then show ?case by (auto split: option.splits dest: uniq_exec)
qed

lemma uniq_emptyStore: "uniq emptyStore"
  by (simp add: uniq_def emptyStore_def)

text \<open>Every update call keeps the logs within the bound.\<close>

lemma foldl_cascade_chatData:
  "chatData (foldl (\<lambda>st session. cascade c (user session) (id_s session) st) s ss) i = Some msgs
     \<Longrightarrow> chatData s i = Some msgs"
proof (induction ss arbitrary: s)
  case Nil
  then show ?case by simp
next
  case (Cons a ss)
  have "chatData (cascade c (user a) (id_s a) s) i = Some msgs"
    by (rule Cons.IH) (use Cons.prems in simp)
  then show ?case by (simp split: if_splits)
qed

lemma bounded_createSession:
  "bounded s \<Longrightarrow> createSession draws c f s = Some (r, s') \<Longrightarrow> bounded s'"
  by (auto simp: bounded_def createSession_def Let_def split: option.splits if_splits)

lemma bounded_removeSession: "bounded s \<Longrightarrow> bounded (snd (removeSession c f s))"
  by (auto simp: bounded_def removeSession_def Let_def split: option.splits if_splits)

lemma bounded_removeAllSessions: "bounded s \<Longrightarrow> bounded (snd (removeAllSessions c s))"
  by (auto simp: bounded_def removeAllSessions_def Let_def split: option.splits
      dest: foldl_cascade_chatData)

lemma bounded_sendMessage: "bounded s \<Longrightarrow> bounded (snd (sendMessage now c r m s))"
  by (auto simp: bounded_def sendMessage_def Let_def split: option.splits if_splits)

lemma bounded_viewMessages: "bounded s \<Longrightarrow> bounded (snd (viewMessages c f s))"
  by (auto simp: bounded_def viewMessages_def Let_def split: option.splits if_splits)

lemma bounded_exec: "bounded s \<Longrightarrow> exec c s = Some s' \<Longrightarrow> bounded s'"
  by (cases c)
    (auto dest: bounded_createSession
      simp: bounded_removeSession bounded_removeAllSessions bounded_sendMessage
        bounded_viewMessages)

lemma bounded_run: "bounded s \<Longrightarrow> run cs s = Some s' \<Longrightarrow> bounded s'"
  by (induction cs arbitrary: s) (auto split: option.splits dest: bounded_exec)

lemma bounded_emptyStore: "bounded emptyStore"
  by (simp add: bounded_def emptyStore_def)

lemma reachable_log_length:
  "run calls emptyStore = Some s \<Longrightarrow> chatData s i = Some msgs \<Longrightarrow> length msgs \<le> MAX_MSG_PER_SESSION + 1"
  using bounded_run [OF bounded_emptyStore, of calls s] by (simp add: bounded_def)

text \<open>
  Every update call keeps the listed sessions logged and the session ids unshared.
\<close>

lemma loggedD: "logged s \<Longrightarrow> userChatIDs s c = Some ss \<Longrightarrow> x \<in> set ss \<Longrightarrow> chatData s (id_s x) \<noteq> None"
  unfolding logged_def by blast

lemma unshared_distinct: "unshared s \<Longrightarrow> userChatIDs s c = Some ss \<Longrightarrow> distinct (map id_s ss)"
  unfolding unshared_def by blast

lemma unshared_apart:
  "unshared s \<Longrightarrow> userChatIDs s c = Some ss \<Longrightarrow> userChatIDs s c' = Some ss' \<Longrightarrow> c \<noteq> c' \<Longrightarrow>
   x \<in> set ss \<Longrightarrow> y \<in> set ss' \<Longrightarrow> id_s x \<noteq> id_s y"
  unfolding unshared_def by blast

lemma newID_loop_fresh: "newID_loop draws cd = Some n \<Longrightarrow> cd n = None"
  by (induction draws) (auto split: if_splits)

lemma foldl_cascade_chatData_eq:
  "chatData (foldl (\<lambda>st session. cascade c (user session) (id_s session) st) s ss) i =
     (if i \<in> set (map id_s ss) then None else chatData s i)"
  by (induction ss arbitrary: s) auto

lemma createSession_maps:
  assumes "createSession draws c f s = Some (r, s')"
  shows "s' = s \<or>
    (\<exists>n old. newID_loop draws (chatData s) = Some n \<and>
       old = (case userChatIDs s c of None \<Rightarrow> [] | Some ss \<Rightarrow> ss) \<and>
       userChatIDs s' = (userChatIDs s)(c \<mapsto> old @ [\<lparr>id_s = n, user = f\<rparr>]) \<and>
       chatData s' = (chatData s)(n \<mapsto> []))"
  using assms by (auto simp: createSession_def Let_def split: option.splits if_splits)

lemma logged_createSession:
  assumes "logged s" "createSession draws c f s = Some (r, s')"
  shows "logged s'"
proof -
  from createSession_maps [OF assms(2)] show ?thesis
  proof
    assume "s' = s" with assms(1) show ?thesis by simp
  next
    assume "\<exists>n old. newID_loop draws (chatData s) = Some n \<and>
       old = (case userChatIDs s c of None \<Rightarrow> [] | Some ss \<Rightarrow> ss) \<and>
       userChatIDs s' = (userChatIDs s)(c \<mapsto> old @ [\<lparr>id_s = n, user = f\<rparr>]) \<and>
       chatData s' = (chatData s)(n \<mapsto> [])"
    then obtain n old where n: "newID_loop draws (chatData s) = Some n"
      and old: "old = (case userChatIDs s c of None \<Rightarrow> [] | Some ss \<Rightarrow> ss)"
      and u: "userChatIDs s' = (userChatIDs s)(c \<mapsto> old @ [\<lparr>id_s = n, user = f\<rparr>])"
      and d: "chatData s' = (chatData s)(n \<mapsto> [])" by blast
    show ?thesis
      unfolding logged_def
    proof (intro allI impI)
      fix c' ss x
      assume a: "userChatIDs s' c' = Some ss" "x \<in> set ss"
      show "chatData s' (id_s x) \<noteq> None"
      proof (cases "id_s x = n")
        case True
        then show ?thesis by (simp add: d)
      next
        case False
        have "\<exists>ss0. userChatIDs s c' = Some ss0 \<and> x \<in> set ss0"
          using a u old False by (auto split: if_splits option.splits)
        then have "chatData s (id_s x) \<noteq> None" using assms(1) loggedD by blast
        then show ?thesis using False by (simp add: d)
      qed
    qed
  qed
qed

lemma unshared_createSession:
  assumes "logged s" "unshared s" "createSession draws c f s = Some (r, s')"
  shows "unshared s'"
proof -
  from createSession_maps [OF assms(3)] show ?thesis
  proof
    assume "s' = s" with assms(2) show ?thesis by simp
  next
    assume "\<exists>n old. newID_loop draws (chatData s) = Some n \<and>
       old = (case userChatIDs s c of None \<Rightarrow> [] | Some ss \<Rightarrow> ss) \<and>
       userChatIDs s' = (userChatIDs s)(c \<mapsto> old @ [\<lparr>id_s = n, user = f\<rparr>]) \<and>
       chatData s' = (chatData s)(n \<mapsto> [])"
    then obtain n old where n: "newID_loop draws (chatData s) = Some n"
      and old: "old = (case userChatIDs s c of None \<Rightarrow> [] | Some ss \<Rightarrow> ss)"
      and u: "userChatIDs s' = (userChatIDs s)(c \<mapsto> old @ [\<lparr>id_s = n, user = f\<rparr>])"
      by blast
    have fresh: "chatData s n = None" using n by (rule newID_loop_fresh)
    have unlisted: "id_s x \<noteq> n" if "userChatIDs s c' = Some ss'" "x \<in> set ss'" for c' ss' x
      using loggedD [OF assms(1) that] fresh by auto
    have old_ids: "n \<notin> set (map id_s old)" "distinct (map id_s old)"
      using old unlisted unshared_distinct [OF assms(2)] by (auto split: option.splits)
    have old_in: "\<exists>ss0. userChatIDs s c = Some ss0 \<and> x \<in> set ss0" if "x \<in> set old" for x
      using that old by (auto split: option.splits)
    show ?thesis
      unfolding unshared_def
    proof (intro conjI allI impI)
      fix c' ss
      assume "userChatIDs s' c' = Some ss"
      then show "distinct (map id_s ss)"
        using u old_ids unshared_distinct [OF assms(2)] by (auto split: if_splits)
    next
      fix c1 c2 ss1 ss2 x y
      assume a: "userChatIDs s' c1 = Some ss1" "userChatIDs s' c2 = Some ss2" "c1 \<noteq> c2"
        "x \<in> set ss1" "y \<in> set ss2"
      show "id_s x \<noteq> id_s y"
      proof (cases "c1 = c")
        case True
        then have y: "userChatIDs s c2 = Some ss2" using a u by auto
        have "x \<in> set old \<or> id_s x = n" using a True u by auto
        then show ?thesis
        proof
          assume "x \<in> set old"
          then obtain ss0 where "userChatIDs s c = Some ss0" "x \<in> set ss0" using old_in by blast
          then show ?thesis using unshared_apart [OF assms(2) _ y] a True by blast
        next
          assume "id_s x = n"
          then show ?thesis using unlisted [OF y a(5)] by simp
        qed
      next
        case False
        then have x: "userChatIDs s c1 = Some ss1" using a u by auto
        show ?thesis
        proof (cases "c2 = c")
          case True
          have "y \<in> set old \<or> id_s y = n" using a True u by auto
          then show ?thesis
          proof
            assume "y \<in> set old"
            then obtain ss0 where "userChatIDs s c = Some ss0" "y \<in> set ss0" using old_in by blast
            then show ?thesis using unshared_apart [OF assms(2) x] a True by blast
          next
            assume "id_s y = n"
            then show ?thesis using unlisted [OF x a(4)] by simp
          qed
        next
          case c2: False
          then have "userChatIDs s c2 = Some ss2" using a u by auto
          then show ?thesis using unshared_apart [OF assms(2) x] a by blast
        qed
      qed
    qed
  qed
qed


lemma scanID_match:
  "p \<in> set (map user ss) \<Longrightarrow> \<exists>y \<in> set ss. user y = p \<and> scanID ID ss p = id_s y"
proof (induction ss arbitrary: ID)
  case Nil
  then show ?case by simp
next
  case (Cons a ss)
  show ?case
  proof (cases "p \<in> set (map user ss)")
    case True
    from Cons.IH [OF True] show ?thesis by auto
  next
    case False
    with Cons.prems have "user a = p" by simp
    then show ?thesis using False by (simp add: scanID_no_match)
  qed
qed

lemma removeSession_maps:
  "snd (removeSession c f s) = s \<or>
    (\<exists>ss y. userChatIDs s c = Some ss \<and> y \<in> set ss \<and> user y = f \<and>
       userChatIDs (snd (removeSession c f s)) =
         (userChatIDs s)(c \<mapsto> filter (\<lambda>session. user session \<noteq> f) ss) \<and>
       chatData (snd (removeSession c f s)) = (chatData s)(id_s y := None))"
proof (cases "userChatIDs s c")
  case None
  then show ?thesis by (simp add: removeSession_def)
next
  case (Some ss)
  show ?thesis
  proof (cases "f \<in> set (map user ss)")
    case False
    then show ?thesis
      using Some by (auto simp: removeSession_def Let_def length_filter_same filter_id_conv)
  next
    case True
    from scanID_match [OF True, of 0] obtain y
      where y: "y \<in> set ss" "user y = f" "scanID 0 ss f = id_s y" by blast
    have "length (filter (\<lambda>session. user session \<noteq> f) ss) \<noteq> length ss"
      using True by (auto simp: length_filter_same filter_id_conv)
    then show ?thesis
      using Some y by (auto simp: removeSession_def Let_def)
  qed
qed

lemma logged_removeSession:
  assumes "logged s" "unshared s"
  shows "logged (snd (removeSession c f s))"
proof -
  let ?s' = "snd (removeSession c f s)"
  from removeSession_maps [of c f s] show ?thesis
  proof
    assume "?s' = s" with assms(1) show ?thesis by simp
  next
    assume "\<exists>ss y. userChatIDs s c = Some ss \<and> y \<in> set ss \<and> user y = f \<and>
       userChatIDs ?s' = (userChatIDs s)(c \<mapsto> filter (\<lambda>session. user session \<noteq> f) ss) \<and>
       chatData ?s' = (chatData s)(id_s y := None)"
    then obtain ss y where ss: "userChatIDs s c = Some ss" and y: "y \<in> set ss" "user y = f"
      and u: "userChatIDs ?s' = (userChatIDs s)(c \<mapsto> filter (\<lambda>session. user session \<noteq> f) ss)"
      and d: "chatData ?s' = (chatData s)(id_s y := None)" by blast
    show ?thesis
      unfolding logged_def
    proof (intro allI impI)
      fix c' ss' x
      assume a: "userChatIDs ?s' c' = Some ss'" "x \<in> set ss'"
      have "id_s x \<noteq> id_s y \<and> chatData s (id_s x) \<noteq> None"
      proof (cases "c' = c")
        case True
        then have x: "x \<in> set ss" "user x \<noteq> f" using a u by auto
        then have "x \<noteq> y" using y by auto
        moreover have "distinct (map id_s ss)" using unshared_distinct [OF assms(2) ss] .
        ultimately have "id_s x \<noteq> id_s y" using x(1) y(1) by (auto simp: distinct_map inj_on_def)
        then show ?thesis using loggedD [OF assms(1) ss x(1)] by simp
      next
        case False
        then have x: "userChatIDs s c' = Some ss'" using a u by auto
        have "id_s x \<noteq> id_s y" using unshared_apart [OF assms(2) x ss False a(2) y(1)] .
        then show ?thesis using loggedD [OF assms(1) x a(2)] by simp
      qed
      then show "chatData ?s' (id_s x) \<noteq> None" by (simp add: d)
    qed
  qed
qed

lemma unshared_removeSession:
  assumes "unshared s"
  shows "unshared (snd (removeSession c f s))"
proof -
  let ?s' = "snd (removeSession c f s)"
  have sub: "\<exists>ss0. userChatIDs s c' = Some ss0 \<and> set ss' \<subseteq> set ss0 \<and>
      (distinct (map id_s ss0) \<longrightarrow> distinct (map id_s ss'))"
    if "userChatIDs ?s' c' = Some ss'" for c' ss'
    using that by (auto simp: removeSession_userChatIDs distinct_map_filter split: option.splits if_splits)
  show ?thesis
    unfolding unshared_def
  proof (intro conjI allI impI)
    fix c' ss'
    assume "userChatIDs ?s' c' = Some ss'"
    from sub [OF this] show "distinct (map id_s ss')"
      using unshared_distinct [OF assms] by blast
  next
    fix c1 c2 ss1 ss2 x y
    assume a: "userChatIDs ?s' c1 = Some ss1" "userChatIDs ?s' c2 = Some ss2" "c1 \<noteq> c2"
      "x \<in> set ss1" "y \<in> set ss2"
    from sub [OF a(1)] sub [OF a(2)] a(3,4,5) show "id_s x \<noteq> id_s y"
      using unshared_apart [OF assms] by blast
  qed
qed

lemma logged_removeAllSessions:
  assumes "logged s" "unshared s"
  shows "logged (snd (removeAllSessions c s))"
proof (cases "userChatIDs s c")
  case None
  then show ?thesis using assms(1) by (simp add: removeAllSessions_def)
next
  case (Some ss)
  let ?s' = "snd (removeAllSessions c s)"
  have u: "userChatIDs ?s' = (userChatIDs s)(c \<mapsto> [])"
    using Some by (simp add: removeAllSessions_userChatIDs)
  have d: "chatData ?s' i = (if i \<in> set (map id_s ss) then None else chatData s i)" for i
    using Some by (simp add: removeAllSessions_def Let_def foldl_cascade_chatData_eq)
  show ?thesis
    unfolding logged_def
  proof (intro allI impI)
    fix c' ss' x
    assume a: "userChatIDs ?s' c' = Some ss'" "x \<in> set ss'"
    then have ne: "c' \<noteq> c" and x: "userChatIDs s c' = Some ss'"
      using u by (auto split: if_splits)
    have "id_s x \<notin> set (map id_s ss)"
      using unshared_apart [OF assms(2) x Some ne a(2)] by auto
    then show "chatData ?s' (id_s x) \<noteq> None"
      using loggedD [OF assms(1) x a(2)] by (simp add: d)
  qed
qed

lemma unshared_removeAllSessions:
  assumes "unshared s"
  shows "unshared (snd (removeAllSessions c s))"
proof -
  let ?s' = "snd (removeAllSessions c s)"
  have sub: "ss' = [] \<or> userChatIDs s c' = Some ss'"
    if "userChatIDs ?s' c' = Some ss'" for c' ss'
    using that by (auto simp: removeAllSessions_userChatIDs split: option.splits if_splits)
  show ?thesis
    unfolding unshared_def
  proof (intro conjI allI impI)
    fix c' ss'
    assume "userChatIDs ?s' c' = Some ss'"
    from sub [OF this] show "distinct (map id_s ss')"
      using unshared_distinct [OF assms] by auto
  next
    fix c1 c2 ss1 ss2 x y
    assume a: "userChatIDs ?s' c1 = Some ss1" "userChatIDs ?s' c2 = Some ss2" "c1 \<noteq> c2"
      "x \<in> set ss1" "y \<in> set ss2"
    from sub [OF a(1)] sub [OF a(2)] a(3,4,5) show "id_s x \<noteq> id_s y"
      using unshared_apart [OF assms] by auto
  qed
qed

lemma sendMessage_chatData_dom:
  "chatData s i \<noteq> None \<Longrightarrow> chatData (snd (sendMessage now c r m s)) i \<noteq> None"
  by (auto simp: sendMessage_def Let_def split: option.splits)

lemma viewMessages_chatData [simp]: "chatData (snd (viewMessages c f s)) = chatData s"
  by (simp add: viewMessages_def Let_def split: option.splits)

lemma sound_exec:
  assumes "sound s" "exec call s = Some s'"
  shows "sound s'"
proof (cases call)
  case (CreateSession draws c f)
  with assms(2) obtain r where "createSession draws c f s = Some (r, s')" by auto
  then show ?thesis
    using assms(1) uniq_createSession logged_createSession unshared_createSession
    unfolding sound_def by blast
next
  case (RemoveSession c f)
  then show ?thesis
    using assms uniq_removeSession logged_removeSession unshared_removeSession
    unfolding sound_def by auto
next
  case (RemoveAllSessions c)
  then show ?thesis
    using assms uniq_removeAllSessions logged_removeAllSessions unshared_removeAllSessions
    unfolding sound_def by auto
next
  case (SendMessage now c r m)
  then have s': "s' = snd (sendMessage now c r m s)" using assms(2) by simp
  show ?thesis
    using assms(1) sendMessage_chatData_dom [of s _ now c r m]
    unfolding sound_def s' uniq_def logged_def unshared_def
    by (simp only: sendMessage_userChatIDs) blast
next
  case (ViewMessages c f)
  then have s': "s' = snd (viewMessages c f s)" using assms(2) by simp
  show ?thesis
    using assms(1) unfolding sound_def s' uniq_def logged_def unshared_def by simp
qed

lemma sound_run: "sound s \<Longrightarrow> run cs s = Some s' \<Longrightarrow> sound s'"
  by (induction cs arbitrary: s) (auto split: option.splits dest: sound_exec)

lemma sound_emptyStore: "sound emptyStore"
  by (simp add: sound_def uniq_def logged_def unshared_def emptyStore_def)

lemma reachable_logged:
  "run calls emptyStore = Some s \<Longrightarrow> userChatIDs s c = Some ss \<Longrightarrow> x \<in> set ss \<Longrightarrow>
     chatData s (id_s x) \<noteq> None"
  using sound_run [OF sound_emptyStore] loggedD unfolding sound_def by blast

lemma reachable_unshared:
  "run calls emptyStore = Some s \<Longrightarrow> userChatIDs s c = Some ss \<Longrightarrow> userChatIDs s c' = Some ss' \<Longrightarrow>
   c \<noteq> c' \<Longrightarrow> x \<in> set ss \<Longrightarrow> y \<in> set ss' \<Longrightarrow> id_s x \<noteq> id_s y"
  using sound_run [OF sound_emptyStore] unshared_apart unfolding sound_def by blast

text \<open>The example runs end in the example stores.\<close>

lemma run_selfCalls: "run selfCalls emptyStore = Some selfStore"
  by (simp add: selfCalls_def selfStore_def emptyStore_def createSession_def generateRandomID_def
      INTEGER_LIMIT_def MAXIMUM_SESSIONS_def MAX_MSG_PER_SESSION_def sendMessage_def notify_def)

lemma run_mutualCalls: "run mutualCalls emptyStore = Some mutualStore"
  by (simp add: mutualCalls_def mutualStore_def emptyStore_def createSession_def
      generateRandomID_def INTEGER_LIMIT_def MAXIMUM_SESSIONS_def MAX_MSG_PER_SESSION_def
      sendMessage_def notify_def)

lemma run_cascadeCalls: "run cascadeCalls emptyStore = Some cascadeStore"
  by (simp add: cascadeCalls_def cascadeStore_def emptyStore_def createSession_def
      generateRandomID_def INTEGER_LIMIT_def MAXIMUM_SESSIONS_def removeSession_def
      cascade_eq purge_def)

lemma run_zero: "run [CreateSession [0] ''alice'' ''bob''] emptyStore = Some zeroStore"
  by (simp add: zeroStore_def emptyStore_def createSession_def generateRandomID_def)

lemma run_fresh: "run [CreateSession [1 / 2] ''alice'' ''bob''] emptyStore = Some freshStore"
  by (simp add: emptyStore_def freshStore_def createSession_def generateRandomID_def
        INTEGER_LIMIT_def)

section \<open>The claims\<close>




text \<open>
  The claim C2 as it is stated fails in a store that the calls reach. In
  \<open>zeroStore\<close>, which one \<^verbatim>\<open>createSession\<close> reaches when \<^verbatim>\<open>Math.random()\<close>
  returns 0, alice lists bob under the id 0 and the log of that id exists and is
  empty; the first send into the session is refused with \<^verbatim>\<open>NotFound\<close>.
\<close>

theorem sendMessage_cap_counterexample:
  "run [CreateSession [0] ''alice'' ''bob''] emptyStore = Some zeroStore \<and>
   userChatIDs zeroStore ''alice'' = Some [\<lparr>id_s = 0, user = ''bob''\<rparr>] \<and>
   chatData zeroStore 0 = Some [] \<and>
   fst (sendMessage 1 ''alice'' ''bob'' ''hi'' zeroStore) = Inl NotFound \<and>
   fst (sendAll [(1, ''hi'')] ''alice'' ''bob'' zeroStore) = [Inl NotFound]"
  using run_zero by (simp add: zeroStore_def sendMessage_def)

text \<open>
  C2 (amended). When the caller lists a session with the receiver (one per
  counterparty) under an id other than 0 and the Message Log has an entry for that id,
  \<^verbatim>\<open>sendMessage\<close> replies \<^verbatim>\<open>MaxMessageReached\<close> exactly when the log already holds
  more than \<open>MAX_MSG_PER_SESSION\<close> messages; otherwise it replies ok and appends the
  message. A series of sends into the session therefore succeeds until the log holds
  \<open>MAX_MSG_PER_SESSION + 1\<close> messages and fails from then on: from an empty log,
  the first 201 sends succeed and every later one fails. In a store reached from the
  empty store by calls of the update methods, the log holds at most
  \<open>MAX_MSG_PER_SESSION + 1\<close> messages. What \<^verbatim>\<open>sendMessage\<close> does for a session
  under the id 0 is not stated.
\<close>

theorem sendMessage_cap:
  "userChatIDs s caller = Some userSessions \<Longrightarrow> distinct (map user userSessions) \<Longrightarrow>
   \<lparr>id_s = ID, user = receiver'\<rparr> \<in> set userSessions \<Longrightarrow> ID \<noteq> 0 \<Longrightarrow>
   chatData s ID = Some msgs \<Longrightarrow>
     (fst (sendMessage now caller receiver' message s) = Inl MaxMessageReached) =
       (MAX_MSG_PER_SESSION < length msgs) \<and>
     (fst (sendMessage now caller receiver' message s) = Inr True) =
       (length msgs \<le> MAX_MSG_PER_SESSION) \<and>
     chatData (snd (sendMessage now caller receiver' message s)) ID =
       Some (if length msgs \<le> MAX_MSG_PER_SESSION
             then msgs @ [\<lparr>sender = caller, receiver = receiver', messageText = message,
                           messageTime = now\<rparr>]
             else msgs) \<and>
     fst (sendAll ms caller receiver' s) =
       replicate (min (length ms) (MAX_MSG_PER_SESSION + 1 - length msgs)) (Inr True) @
       replicate (length ms - (MAX_MSG_PER_SESSION + 1 - length msgs)) (Inl MaxMessageReached) \<and>
     (\<exists>msgs'. chatData (snd (sendAll ms caller receiver' s)) ID = Some msgs' \<and>
        length msgs' = length msgs + min (length ms) (MAX_MSG_PER_SESSION + 1 - length msgs)) \<and>
     (\<forall>calls. run calls emptyStore = Some s \<longrightarrow> length msgs \<le> MAX_MSG_PER_SESSION + 1)"
proof -
  assume a: "userChatIDs s caller = Some userSessions" "distinct (map user userSessions)"
    "\<lparr>id_s = ID, user = receiver'\<rparr> \<in> set userSessions" "ID \<noteq> 0" "chatData s ID = Some msgs"
  have sc: "scanID 0 userSessions receiver' = ID"
    using scanID_distinct [OF a(2) a(3), of 0] by simp
  have one: "(fst (sendMessage now caller receiver' message s) = Inl MaxMessageReached) =
       (MAX_MSG_PER_SESSION < length msgs)"
    using a sc by (simp add: sendMessage_def Let_def)
  have two: "(fst (sendMessage now caller receiver' message s) = Inr True) =
       (length msgs \<le> MAX_MSG_PER_SESSION)"
    using a sc by (auto simp add: sendMessage_def Let_def)
  have three: "chatData (snd (sendMessage now caller receiver' message s)) ID =
       Some (if length msgs \<le> MAX_MSG_PER_SESSION
             then msgs @ [\<lparr>sender = caller, receiver = receiver', messageText = message,
                           messageTime = now\<rparr>]
             else msgs)"
    using a sc by (auto simp add: sendMessage_def Let_def)
  have four: "\<forall>calls. run calls emptyStore = Some s \<longrightarrow> length msgs \<le> MAX_MSG_PER_SESSION + 1"
    using reachable_log_length [OF _ a(5)] by blast
  show ?thesis
    using one two three four sendAll_replies [OF a(1) sc a(4) a(5), of ms] by simp
qed

text \<open>
  At \<open>freshStore\<close>, which one \<^verbatim>\<open>createSession\<close> reaches from the empty store:
  of 202 sends from alice to bob into the empty log, the first 201 succeed and the
  last is refused; the log ends with 201 messages.
\<close>

theorem sendMessage_cap_witness:
  "run [CreateSession [1 / 2] ''alice'' ''bob''] emptyStore = Some freshStore \<and>
   userChatIDs freshStore ''alice'' = Some [\<lparr>id_s = 4503599627370495, user = ''bob''\<rparr>] \<and>
   chatData freshStore 4503599627370495 = Some [] \<and>
   fst (sendMessage 1 ''alice'' ''bob'' ''hi'' freshStore) = Inr True \<and>
   fst (sendAll (replicate 202 (1, ''hi'')) ''alice'' ''bob'' freshStore) =
     replicate 201 (Inr True) @ [Inl MaxMessageReached] \<and>
   (\<exists>msgs'. chatData (snd (sendAll (replicate 202 (1, ''hi'')) ''alice'' ''bob'' freshStore))
        4503599627370495 = Some msgs' \<and> length msgs' = 201) \<and>
   length ([] :: Message list) \<le> MAX_MSG_PER_SESSION + 1"
proof -
  have h: "userChatIDs freshStore ''alice'' = Some [\<lparr>id_s = 4503599627370495, user = ''bob''\<rparr>]"
    "distinct (map user [\<lparr>id_s = 4503599627370495, user = ''bob''\<rparr>])"
    "\<lparr>id_s = 4503599627370495, user = ''bob''\<rparr> \<in> set [\<lparr>id_s = 4503599627370495, user = ''bob''\<rparr>]"
    "(4503599627370495::nat) \<noteq> 0"
    "chatData freshStore 4503599627370495 = Some []"
    by (simp_all add: freshStore_def)
  have reached: "run [CreateSession [1 / 2] ''alice'' ''bob''] emptyStore = Some freshStore"
    by (simp add: emptyStore_def freshStore_def createSession_def generateRandomID_def
        INTEGER_LIMIT_def)
  have r: "replicate (202 - 201) (Inl MaxMessageReached :: Error + bool) = [Inl MaxMessageReached]"
    by (simp add: numeral_eq_Suc)
  note inst = sendMessage_cap [OF h, of 1 "''hi''" "replicate 202 (1, ''hi'')"]
  have bound: "length ([] :: Message list) \<le> MAX_MSG_PER_SESSION + 1"
    using inst reached by blast
  show ?thesis
    using inst h r reached bound
    by (simp add: MAX_MSG_PER_SESSION_def)
qed

text \<open>
  C3 (what the code does). The claim is that \<^verbatim>\<open>createSession\<close> is refused with
  \<^verbatim>\<open>MaxSessionsReached\<close> when the caller's list holds exactly
  \<open>MAXIMUM_SESSIONS\<close> sessions. The code tests
  \<^verbatim>\<open>length > MAXIMUM_SESSIONS\<close>: with exactly \<open>MAXIMUM_SESSIONS\<close> sessions and a
  counterparty not yet listed, the call succeeds and the list then holds
  \<open>MAXIMUM_SESSIONS + 1\<close> sessions.
\<close>

theorem createSession_at_cap:
  "userChatIDs s caller = Some userSessions \<Longrightarrow> length userSessions = MAXIMUM_SESSIONS \<Longrightarrow>
   friendPrincipal \<notin> set (map user userSessions) \<Longrightarrow>
   newID_loop draws (chatData s) = Some newID \<Longrightarrow>
     map_option fst (createSession draws caller friendPrincipal s) = Some (Inr True) \<and>
     map_option (\<lambda>r. userChatIDs (snd r) caller) (createSession draws caller friendPrincipal s) =
       Some (Some (userSessions @ [\<lparr>id_s = newID, user = friendPrincipal\<rparr>])) \<and>
     length (userSessions @ [\<lparr>id_s = newID, user = friendPrincipal\<rparr>]) = MAXIMUM_SESSIONS + 1"
  by (simp add: createSession_def Let_def)

text \<open>
  At \<open>fullStore\<close>: alice holds 20 sessions, opens one with bob, and holds 21.
\<close>

theorem createSession_at_cap_witness:
  "userChatIDs fullStore ''alice'' = Some twentySessions \<and>
   length twentySessions = 20 \<and>
   ''bob'' \<notin> set (map user twentySessions) \<and>
   newID_loop [1 / 2] (chatData fullStore) = Some 4503599627370495 \<and>
   map_option fst (createSession [1 / 2] ''alice'' ''bob'' fullStore) = Some (Inr True) \<and>
   map_option (\<lambda>r. map_option length (userChatIDs (snd r) ''alice''))
     (createSession [1 / 2] ''alice'' ''bob'' fullStore) = Some (Some 21)"
proof -
  have h: "userChatIDs fullStore ''alice'' = Some twentySessions"
    "length twentySessions = MAXIMUM_SESSIONS"
    "''bob'' \<notin> set (map user twentySessions)"
    "newID_loop [1 / 2] (chatData fullStore) = Some 4503599627370495"
    by (simp_all add: fullStore_def twentySessions_def MAXIMUM_SESSIONS_def
        generateRandomID_def INTEGER_LIMIT_def)
  have l: "length twentySessions = 20" by (simp add: twentySessions_def)
  show ?thesis
    using createSession_at_cap [OF h] h l
    by (auto simp add: MAXIMUM_SESSIONS_def)
qed

text \<open>
  C4 (what the code does). The claim is that the id loop of \<^verbatim>\<open>createSession\<close> never
  produces the id 0. The loop only asks whether the Message Log has the id as a key:
  when \<^verbatim>\<open>Math.random()\<close> returns 0, \<^verbatim>\<open>generateRandomID\<close> returns 0, and on the
  empty store the session is created under the id 0. \<^verbatim>\<open>getSessionID\<close> then finds
  the session, while \<^verbatim>\<open>sendMessage\<close>, \<^verbatim>\<open>viewMessages\<close> and
  \<^verbatim>\<open>getTotalSessionMessages\<close> reply \<^verbatim>\<open>NotFound\<close> for it.
\<close>

theorem createSession_zero_id:
  "generateRandomID 0 = 0 \<and>
   createSession [0] ''alice'' ''bob'' emptyStore = Some (Inr True, zeroStore) \<and>
   getSessionID ''alice'' ''bob'' zeroStore = Inr 0 \<and>
   sendMessage 1 ''alice'' ''bob'' ''hi'' zeroStore = (Inl NotFound, zeroStore) \<and>
   fst (viewMessages ''alice'' ''bob'' zeroStore) = Inl NotFound \<and>
   getTotalSessionMessages ''alice'' ''bob'' zeroStore = Inl NotFound"
  by (simp add: generateRandomID_def createSession_def emptyStore_def zeroStore_def
      getSessionID_def sendMessage_def viewMessages_def getTotalSessionMessages_def)

text \<open>
  C5. In every store reached from the empty store by a sequence of calls of the update
  methods (\<^verbatim>\<open>createSession\<close>, \<^verbatim>\<open>removeSession\<close>, \<^verbatim>\<open>removeAllSessions\<close>, and
  also \<^verbatim>\<open>sendMessage\<close> and \<^verbatim>\<open>viewMessages\<close>), the counterparties of every
  caller's session list are pairwise distinct.
\<close>

theorem counterparties_distinct:
  "run calls emptyStore = Some s \<Longrightarrow> userChatIDs s caller = Some userSessions \<Longrightarrow>
     distinct (map user userSessions)"
  using uniq_run [OF uniq_emptyStore, of calls s] by (simp add: uniq_def)

text \<open>
  The run \<open>demoCalls\<close> ends in a store where alice lists carol only and bob lists
  alice.
\<close>

theorem counterparties_distinct_witness:
  "\<exists>s. run demoCalls emptyStore = Some s \<and>
       userChatIDs s ''alice'' = Some [\<lparr>id_s = 2251799813685247, user = ''carol''\<rparr>] \<and>
       userChatIDs s ''bob'' = Some [\<lparr>id_s = 4503599627370495, user = ''alice''\<rparr>] \<and>
       distinct (map user [\<lparr>id_s = 2251799813685247, user = ''carol''\<rparr>])"
proof -
  obtain s where r: "run demoCalls emptyStore = Some s"
    and u: "userChatIDs s ''alice'' = Some [\<lparr>id_s = 2251799813685247, user = ''carol''\<rparr>]"
    and v: "userChatIDs s ''bob'' = Some [\<lparr>id_s = 4503599627370495, user = ''alice''\<rparr>]"
    by (simp add: demoCalls_def emptyStore_def createSession_def generateRandomID_def
        INTEGER_LIMIT_def MAXIMUM_SESSIONS_def sendMessage_def notify_def removeSession_def
        cascade_eq purge_def)
  from counterparties_distinct [OF r u] r u v show ?thesis by blast
qed

text \<open>
  The claim C6 as it is stated fails in a store that the calls reach. In
  \<open>zeroStore\<close> alice lists bob under the id 0 and the log of that id exists;
  \<^verbatim>\<open>viewMessages\<close> replies \<^verbatim>\<open>NotFound\<close> instead of the messages.
\<close>

theorem viewMessages_effect_counterexample:
  "run [CreateSession [0] ''alice'' ''bob''] emptyStore = Some zeroStore \<and>
   userChatIDs zeroStore ''alice'' = Some [\<lparr>id_s = 0, user = ''bob''\<rparr>] \<and>
   chatData zeroStore 0 = Some [] \<and>
   viewMessages ''alice'' ''bob'' zeroStore = (Inl NotFound, zeroStore)"
  using run_zero by (simp add: zeroStore_def viewMessages_def)

text \<open>
  C6 (amended). When the caller lists a session with the counterparty (one per
  counterparty) under an id other than 0 and the Message Log has an entry for that
  id, \<^verbatim>\<open>viewMessages\<close> returns the messages of that entry in order; the directory
  and the Message Log are unchanged, the caller's queue keeps exactly the
  notifications of the other session ids (and stays absent when it was absent), and
  the queue of every other principal is unchanged. What \<^verbatim>\<open>viewMessages\<close> does for
  a session under the id 0 is not stated.
\<close>

theorem viewMessages_effect:
  "userChatIDs s caller = Some userSessions \<Longrightarrow> distinct (map user userSessions) \<Longrightarrow>
   \<lparr>id_s = ID, user = counterparty\<rparr> \<in> set userSessions \<Longrightarrow> ID \<noteq> 0 \<Longrightarrow>
   chatData s ID = Some messages \<Longrightarrow>
     fst (viewMessages caller counterparty s) = Inr messages \<and>
     userChatIDs (snd (viewMessages caller counterparty s)) = userChatIDs s \<and>
     chatData (snd (viewMessages caller counterparty s)) = chatData s \<and>
     unreadMessages (snd (viewMessages caller counterparty s)) caller =
       map_option (filter (\<lambda>notification. id_n notification \<noteq> ID)) (unreadMessages s caller) \<and>
     (\<forall>p. p \<noteq> caller \<longrightarrow>
        unreadMessages (snd (viewMessages caller counterparty s)) p = unreadMessages s p)"
proof -
  assume a: "userChatIDs s caller = Some userSessions" "distinct (map user userSessions)"
    "\<lparr>id_s = ID, user = counterparty\<rparr> \<in> set userSessions" "ID \<noteq> 0" "chatData s ID = Some messages"
  have "scanID 0 userSessions counterparty = ID"
    using scanID_distinct [OF a(2) a(3), of 0] by simp
  with a show ?thesis
    by (simp add: viewMessages_def Let_def purge_def split: option.splits)
qed

text \<open>
  At \<open>selfStore\<close>, reached by \<open>selfCalls\<close>: alice views her session with
  herself; of her two notifications the one under bob's session id stays, and bob's
  queue is as it was.
\<close>

theorem viewMessages_effect_witness:
  "run selfCalls emptyStore = Some selfStore \<and>
   userChatIDs selfStore ''alice'' = Some [\<lparr>id_s = 4503599627370495, user = ''alice''\<rparr>] \<and>
   chatData selfStore 4503599627370495 =
     Some [\<lparr>sender = ''alice'', receiver = ''alice'', messageText = ''hi'', messageTime = 1\<rparr>] \<and>
   unreadMessages selfStore ''alice'' =
     Some [\<lparr>sender_n = ''alice'', id_n = 4503599627370495, messageTime_n = 1\<rparr>,
           \<lparr>sender_n = ''bob'', id_n = 2251799813685247, messageTime_n = 2\<rparr>] \<and>
   fst (viewMessages ''alice'' ''alice'' selfStore) =
     Inr [\<lparr>sender = ''alice'', receiver = ''alice'', messageText = ''hi'', messageTime = 1\<rparr>] \<and>
   unreadMessages (snd (viewMessages ''alice'' ''alice'' selfStore)) ''alice'' =
     Some [\<lparr>sender_n = ''bob'', id_n = 2251799813685247, messageTime_n = 2\<rparr>] \<and>
   userChatIDs (snd (viewMessages ''alice'' ''alice'' selfStore)) = userChatIDs selfStore \<and>
   chatData (snd (viewMessages ''alice'' ''alice'' selfStore)) = chatData selfStore \<and>
   ''bob'' \<noteq> ''alice'' \<and>
   unreadMessages (snd (viewMessages ''alice'' ''alice'' selfStore)) ''bob'' =
     unreadMessages selfStore ''bob''"
proof -
  have h: "userChatIDs selfStore ''alice'' = Some [\<lparr>id_s = 4503599627370495, user = ''alice''\<rparr>]"
    "distinct (map user [\<lparr>id_s = 4503599627370495, user = ''alice''\<rparr>])"
    "\<lparr>id_s = 4503599627370495, user = ''alice''\<rparr> \<in> set [\<lparr>id_s = 4503599627370495, user = ''alice''\<rparr>]"
    "(4503599627370495::nat) \<noteq> 0"
    "chatData selfStore 4503599627370495 =
       Some [\<lparr>sender = ''alice'', receiver = ''alice'', messageText = ''hi'', messageTime = 1\<rparr>]"
    by (simp_all add: selfStore_def)
  have q: "unreadMessages selfStore ''alice'' =
     Some [\<lparr>sender_n = ''alice'', id_n = 4503599627370495, messageTime_n = 1\<rparr>,
           \<lparr>sender_n = ''bob'', id_n = 2251799813685247, messageTime_n = 2\<rparr>]"
    by (simp add: selfStore_def)
  show ?thesis
    using viewMessages_effect [OF h] h q run_selfCalls by simp
qed

text \<open>
  C7. When the caller has a directory entry with no session for the given
  counterparty, \<^verbatim>\<open>removeSession\<close> replies \<^verbatim>\<open>NotFound\<close> and the store is
  unchanged. Hence, for a caller with a directory entry, a \<^verbatim>\<open>removeSession\<close> that
  follows a \<^verbatim>\<open>removeSession\<close> for the same counterparty replies \<^verbatim>\<open>NotFound\<close>
  and changes nothing.
\<close>

theorem removeSession_no_match:
  "(userChatIDs s caller = Some ss \<and> friendPrincipal \<notin> set (map user ss) \<longrightarrow>
      removeSession caller friendPrincipal s = (Inl NotFound, s)) \<and>
   (userChatIDs s caller \<noteq> None \<longrightarrow>
      removeSession caller friendPrincipal (snd (removeSession caller friendPrincipal s)) =
        (Inl NotFound, snd (removeSession caller friendPrincipal s)))"
proof (intro conjI impI)
  assume "userChatIDs s caller = Some ss \<and> friendPrincipal \<notin> set (map user ss)"
  then show "removeSession caller friendPrincipal s = (Inl NotFound, s)"
    by (auto simp: removeSession_def Let_def length_filter_same filter_id_conv)
next
  let ?s1 = "snd (removeSession caller friendPrincipal s)"
  assume "userChatIDs s caller \<noteq> None"
  then obtain ss where ss: "userChatIDs s caller = Some ss" by auto
  have "\<exists>ss1. userChatIDs ?s1 caller = Some ss1 \<and> friendPrincipal \<notin> set (map user ss1)"
    using ss by (auto simp: removeSession_userChatIDs)
  then obtain ss1 where "userChatIDs ?s1 caller = Some ss1" "friendPrincipal \<notin> set (map user ss1)"
    by blast
  then show "removeSession caller friendPrincipal ?s1 = (Inl NotFound, ?s1)"
    by (auto simp: removeSession_def Let_def length_filter_same filter_id_conv)
qed

text \<open>
  At \<open>aliceStore\<close>: alice has no session with dave; and she removes her session
  with bob twice.
\<close>

theorem removeSession_no_match_witness:
  "userChatIDs aliceStore ''alice'' = Some [\<lparr>id_s = 7, user = ''bob''\<rparr>, \<lparr>id_s = 9, user = ''carol''\<rparr>] \<and>
   ''dave'' \<notin> set (map user [\<lparr>id_s = 7, user = ''bob''\<rparr>, \<lparr>id_s = 9, user = ''carol''\<rparr>]) \<and>
   removeSession ''alice'' ''dave'' aliceStore = (Inl NotFound, aliceStore) \<and>
   fst (removeSession ''alice'' ''bob'' aliceStore) = Inr True \<and>
   fst (removeSession ''alice'' ''bob'' (snd (removeSession ''alice'' ''bob'' aliceStore))) =
     Inl NotFound"
proof -
  have h: "userChatIDs aliceStore ''alice'' =
      Some [\<lparr>id_s = 7, user = ''bob''\<rparr>, \<lparr>id_s = 9, user = ''carol''\<rparr>]"
    "''dave'' \<notin> set (map user [\<lparr>id_s = 7, user = ''bob''\<rparr>, \<lparr>id_s = 9, user = ''carol''\<rparr>])"
    "userChatIDs aliceStore ''alice'' \<noteq> None"
    by (simp_all add: aliceStore_def)
  have ok: "fst (removeSession ''alice'' ''bob'' aliceStore) = Inr True"
    by (simp add: removeSession_def aliceStore_def)
  show ?thesis
    using removeSession_no_match
        [of aliceStore "''alice''" "[\<lparr>id_s = 7, user = ''bob''\<rparr>, \<lparr>id_s = 9, user = ''carol''\<rparr>]"
           "''dave''"]
      removeSession_no_match
        [of aliceStore "''alice''" "[\<lparr>id_s = 7, user = ''bob''\<rparr>, \<lparr>id_s = 9, user = ''carol''\<rparr>]"
           "''bob''"] h ok
    by simp
qed

text \<open>
  C8. When \<^verbatim>\<open>createSession\<close> succeeds, the caller's list is the old one followed by
  the new session under the id the loop produced, and \<^verbatim>\<open>getSessionID\<close> for the
  same counterparty, asked right after, returns ok with that id.
\<close>

theorem createSession_getSessionID:
  "createSession draws caller friendPrincipal s = Some (Inr True, s') \<Longrightarrow>
   newID_loop draws (chatData s) = Some newID \<Longrightarrow>
     userChatIDs s' caller =
       Some ((case userChatIDs s caller of None \<Rightarrow> [] | Some userSessions \<Rightarrow> userSessions)
             @ [\<lparr>id_s = newID, user = friendPrincipal\<rparr>]) \<and>
     getSessionID caller friendPrincipal s' = Inr newID"
  by (auto simp: createSession_def getSessionID_def Let_def find_snoc_fresh
      split: option.splits if_splits)

text \<open>
  At \<open>aliceStore\<close>: alice opens a session with dave.
\<close>

theorem createSession_getSessionID_witness:
  "newID_loop [1 / 2] (chatData aliceStore) = Some 4503599627370495 \<and>
   (\<exists>s'. createSession [1 / 2] ''alice'' ''dave'' aliceStore = Some (Inr True, s') \<and>
      getSessionID ''alice'' ''dave'' s' = Inr 4503599627370495)"
proof -
  have n: "newID_loop [1 / 2] (chatData aliceStore) = Some 4503599627370495"
    by (simp add: aliceStore_def generateRandomID_def INTEGER_LIMIT_def)
  have u: "userChatIDs aliceStore ''alice'' =
      Some [\<lparr>id_s = 7, user = ''bob''\<rparr>, \<lparr>id_s = 9, user = ''carol''\<rparr>]"
    by (simp add: aliceStore_def)
  obtain s' where c: "createSession [1 / 2] ''alice'' ''dave'' aliceStore = Some (Inr True, s')"
    unfolding createSession_def n u by (simp add: MAXIMUM_SESSIONS_def)
  from createSession_getSessionID [OF c n] c n show ?thesis by blast
qed

text \<open>
  C9. After a successful \<^verbatim>\<open>removeAllSessions\<close> the caller's directory entry is the
  empty list: a second \<^verbatim>\<open>removeAllSessions\<close> replies ok, and
  \<^verbatim>\<open>getAllSessions\<close> returns the empty list.
\<close>

theorem removeAllSessions_twice:
  "fst (removeAllSessions caller s) = Inr True \<Longrightarrow>
     userChatIDs (snd (removeAllSessions caller s)) caller = Some [] \<and>
     fst (removeAllSessions caller (snd (removeAllSessions caller s))) = Inr True \<and>
     getAllSessions caller (snd (removeAllSessions caller s)) = Inr []"
proof -
  assume ok: "fst (removeAllSessions caller s) = Inr True"
  then obtain ss where ss: "userChatIDs s caller = Some ss"
    by (auto simp: removeAllSessions_def split: option.splits)
  then have e: "userChatIDs (snd (removeAllSessions caller s)) caller = Some []"
    by (simp add: removeAllSessions_userChatIDs)
  then show ?thesis
    by (simp add: removeAllSessions_def getAllSessions_def Let_def)
qed


text \<open>
  At \<open>aliceStore\<close>, for alice.
\<close>

theorem removeAllSessions_twice_witness:
  "fst (removeAllSessions ''alice'' aliceStore) = Inr True \<and>
   userChatIDs (snd (removeAllSessions ''alice'' aliceStore)) ''alice'' = Some [] \<and>
   fst (removeAllSessions ''alice'' (snd (removeAllSessions ''alice'' aliceStore))) = Inr True \<and>
   getAllSessions ''alice'' (snd (removeAllSessions ''alice'' aliceStore)) = Inr []"
proof -
  have h: "fst (removeAllSessions ''alice'' aliceStore) = Inr True"
    by (simp add: removeAllSessions_def aliceStore_def)
  show ?thesis
    using removeAllSessions_twice [OF h] h by simp
qed




end
